theory Spec2Isabelle
  imports
    Complex_Main
    "HOL-Library.Char_ord"
    "HOL-Library.List_Lexorder"
    "HOL-Library.Sublist"
    "HOL-Library.Multiset"
begin

section \<open>Data model\<close>

text \<open>
  Strings are lists of code units; the model has the code units below 256 (\<open>char\<close>).

  One entity, the company record of \<^verbatim>\<open>companies.json\<close>. The field \<^verbatim>\<open>id\<close> is called
  \<open>cid\<close> here (\<open>id\<close> is the identity function of HOL). \<open>employees\<close> is an integer, so the
  comparator \<^verbatim>\<open>a.employees - b.employees\<close> is integer subtraction; \<open>description\<close> is
  optional.
\<close>

record company =
  cid :: nat
  name :: string
  industry :: string
  location :: string
  employees :: int
  description :: "string option"
  website :: string

section \<open>The built-ins of the language the component calls\<close>

text \<open>
  \<^verbatim>\<open>String.prototype.toLowerCase\<close> and \<^verbatim>\<open>String.prototype.localeCompare\<close> depend on the
  Unicode tables and the locale of the host. They are parameters of the model: every
  function that calls them takes the record of the two.
\<close>

record runtime =
  toLowerCase :: "string \<Rightarrow> string"
  localeCompare :: "string \<Rightarrow> string \<Rightarrow> int"

text \<open>
  \<^verbatim>\<open>String.prototype.trim\<close> removes the white space and line terminators of the language
  from both ends. Of those, the code units below 256 are TAB, LF, VT, FF, CR, SP and NBSP.
\<close>

definition is_white_space :: "char \<Rightarrow> bool" where
  "is_white_space c \<longleftrightarrow>
     (of_char c :: nat) \<in> {0x09, 0x0A, 0x0B, 0x0C, 0x0D, 0x20, 0xA0}"

definition trim :: "string \<Rightarrow> string" where
  "trim s = rev (dropWhile is_white_space (rev (dropWhile is_white_space s)))"

text \<open>\<^verbatim>\<open>s.includes(q)\<close>: \<open>q\<close> occurs in \<open>s\<close> as a run of consecutive code units.\<close>

fun str_includes :: "string \<Rightarrow> string \<Rightarrow> bool" where
  "str_includes [] q = (q = [])"
| "str_includes (x # xs) q = (prefix q (x # xs) \<or> str_includes xs q)"

text \<open>
  \<^verbatim>\<open>Array.prototype.sort(comparefn)\<close> is a stable sort: with a consistent comparator the
  result is the one a stable insertion sort gives, an element going in front of the first
  element of the sorted rest that it does not compare greater than.
\<close>

fun insert_by :: "('a \<Rightarrow> 'a \<Rightarrow> int) \<Rightarrow> 'a \<Rightarrow> 'a list \<Rightarrow> 'a list" where
  "insert_by cmp x [] = [x]"
| "insert_by cmp x (y # ys) =
     (if cmp x y \<le> 0 then x # y # ys else y # insert_by cmp x ys)"

fun array_sort :: "('a \<Rightarrow> 'a \<Rightarrow> int) \<Rightarrow> 'a list \<Rightarrow> 'a list" where
  "array_sort cmp [] = []"
| "array_sort cmp (x # xs) = insert_by cmp x (array_sort cmp xs)"

text \<open>
  \<^verbatim>\<open>sort()\<close> without a comparator orders strings by their code units, lexicographically.
\<close>

definition default_compare :: "string \<Rightarrow> string \<Rightarrow> int" where
  "default_compare x y = (if x < y then - 1 else if y < x then 1 else 0)"

text \<open>
  \<^verbatim>\<open>Array.from(new Set(xs))\<close>: the values of \<open>xs\<close> in the order of their first occurrence,
  each one once.
\<close>

definition set_add :: "'a list \<Rightarrow> 'a \<Rightarrow> 'a list" where
  "set_add s x = (if x \<in> set s then s else s @ [x])"

definition new_Set :: "'a list \<Rightarrow> 'a list" where
  "new_Set xs = foldl set_add [] xs"

text \<open>
  \<^verbatim>\<open>Array.prototype.slice(start, end)\<close>: negative indices count from the end, both bounds
  are clamped to the length, and an empty range gives the empty array.
\<close>

definition slice :: "'a list \<Rightarrow> int \<Rightarrow> int \<Rightarrow> 'a list" where
  "slice xs start fin =
     (let len = int (length xs);
          k = (if start < 0 then max (len + start) 0 else min start len);
          final = (if fin < 0 then max (len + fin) 0 else min fin len)
      in take (nat (final - k)) (drop (nat k) xs))"

section \<open>The query pipeline (\<^verbatim>\<open>filtered\<close>)\<close>

text \<open>
  The predicate of the search filter. A missing or empty description, and an empty
  industry, are falsy and do not match.
\<close>

definition search_match :: "runtime \<Rightarrow> string \<Rightarrow> company \<Rightarrow> bool" where
  "search_match rt q c \<longleftrightarrow>
     str_includes (toLowerCase rt (name c)) q \<or>
     (case description c of
        None \<Rightarrow> False
      | Some d \<Rightarrow> d \<noteq> [] \<and> str_includes (toLowerCase rt d) q) \<or>
     (industry c \<noteq> [] \<and> str_includes (toLowerCase rt (industry c)) q)"

definition apply_search :: "runtime \<Rightarrow> string \<Rightarrow> company list \<Rightarrow> company list" where
  "apply_search rt debouncedSearch result =
     (if trim debouncedSearch \<noteq> []
      then (let q = toLowerCase rt (trim debouncedSearch)
            in filter (search_match rt q) result)
      else result)"

definition apply_location :: "string \<Rightarrow> company list \<Rightarrow> company list" where
  "apply_location loc result =
     (if loc \<noteq> ''All'' then filter (\<lambda>c. location c = loc) result else result)"

definition apply_industry :: "string \<Rightarrow> company list \<Rightarrow> company list" where
  "apply_industry ind result =
     (if ind \<noteq> ''All'' then filter (\<lambda>c. industry c = ind) result else result)"

text \<open>The four \<^verbatim>\<open>if (sort === ...)\<close> statements, one after the other.\<close>

definition apply_sort :: "runtime \<Rightarrow> string \<Rightarrow> company list \<Rightarrow> company list" where
  "apply_sort rt sortk result =
     (let r1 = (if sortk = ''name-asc''
                then array_sort (\<lambda>a b. localeCompare rt (name a) (name b)) result
                else result);
          r2 = (if sortk = ''name-desc''
                then array_sort (\<lambda>a b. localeCompare rt (name b) (name a)) r1
                else r1);
          r3 = (if sortk = ''employees-asc''
                then array_sort (\<lambda>a b. employees a - employees b) r2
                else r2);
          r4 = (if sortk = ''employees-desc''
                then array_sort (\<lambda>a b. employees b - employees a) r3
                else r3)
      in r4)"

definition filtered ::
  "runtime \<Rightarrow> company list \<Rightarrow> string \<Rightarrow> string \<Rightarrow> string \<Rightarrow> string \<Rightarrow> company list" where
  "filtered rt companies debouncedSearch loc ind sortk =
     apply_sort rt sortk
       (apply_industry ind
         (apply_location loc
           (apply_search rt debouncedSearch companies)))"

text \<open>The sequence the sort is applied to.\<close>

abbreviation pre_sort ::
  "runtime \<Rightarrow> company list \<Rightarrow> string \<Rightarrow> string \<Rightarrow> string \<Rightarrow> company list" where
  "pre_sort rt companies text loc ind \<equiv>
     apply_industry ind (apply_location loc (apply_search rt text companies))"

section \<open>The paginator\<close>

definition PAGE_SIZE :: int where
  "PAGE_SIZE = 8"

definition totalPages :: "'a list \<Rightarrow> int" where
  "totalPages flt = max 1 \<lceil>real (length flt) / real_of_int PAGE_SIZE\<rceil>"

definition paginated :: "'a list \<Rightarrow> int \<Rightarrow> 'a list" where
  "paginated flt page = slice flt ((page - 1) * PAGE_SIZE) (page * PAGE_SIZE)"

text \<open>
  The two buttons. \<^verbatim>\<open>Prev\<close> is disabled on page 1 and \<^verbatim>\<open>Next\<close> on the last page; a disabled
  button does not run its handler. Otherwise the handler is the updater given to
  \<^verbatim>\<open>setPage\<close>.
\<close>

datatype page_button = Prev | Next

fun click :: "int \<Rightarrow> page_button \<Rightarrow> int \<Rightarrow> int" where
  "click tot Prev page = (if page = 1 then page else max 1 (page - 1))"
| "click tot Next page = (if page = tot then page else min tot (page + 1))"

text \<open>A sequence of clicks, with the page count of the render they happen in.\<close>

definition clicks :: "int \<Rightarrow> page_button list \<Rightarrow> int \<Rightarrow> int" where
  "clicks tot bs page = foldl (\<lambda>p b. click tot b p) page bs"

section \<open>The filter options (\<^verbatim>\<open>locations\<close>, \<^verbatim>\<open>industries\<close>)\<close>

definition locations :: "company list \<Rightarrow> string list" where
  "locations companies =
     ''All'' # array_sort default_compare (new_Set (map location companies))"

definition industries :: "company list \<Rightarrow> string list" where
  "industries companies =
     ''All'' # array_sort default_compare (new_Set (map industry companies))"

section \<open>The query pipeline as the specification words it\<close>

text \<open>
  The specification's pipeline, step by step: a case-insensitive substring match of the
  search text against name, description and industry when the text is non-empty; the
  exact match on location unless the filter is "All"; the exact match on industry unless
  the filter is "All"; a stable sort by the selected key.
\<close>

datatype sort_key = NameAsc | NameDesc | EmployeesAsc | EmployeesDesc

definition spec_search_match :: "runtime \<Rightarrow> string \<Rightarrow> company \<Rightarrow> bool" where
  "spec_search_match rt text c \<longleftrightarrow>
     sublist (toLowerCase rt text) (toLowerCase rt (name c)) \<or>
     (case description c of
        None \<Rightarrow> False
      | Some d \<Rightarrow> sublist (toLowerCase rt text) (toLowerCase rt d)) \<or>
     sublist (toLowerCase rt text) (toLowerCase rt (industry c))"

text \<open>
  The order of a sort key: \<open>a\<close> is not after \<open>b\<close>. A descending key is the ascending one
  with the two companies exchanged.
\<close>

fun spec_before :: "runtime \<Rightarrow> sort_key \<Rightarrow> company \<Rightarrow> company \<Rightarrow> bool" where
  "spec_before rt NameAsc a b \<longleftrightarrow> localeCompare rt (name a) (name b) \<le> 0"
| "spec_before rt NameDesc a b \<longleftrightarrow> localeCompare rt (name b) (name a) \<le> 0"
| "spec_before rt EmployeesAsc a b \<longleftrightarrow> employees a \<le> employees b"
| "spec_before rt EmployeesDesc a b \<longleftrightarrow> employees b \<le> employees a"

fun stable_insert :: "('a \<Rightarrow> 'a \<Rightarrow> bool) \<Rightarrow> 'a \<Rightarrow> 'a list \<Rightarrow> 'a list" where
  "stable_insert before x [] = [x]"
| "stable_insert before x (y # ys) =
     (if before x y then x # y # ys else y # stable_insert before x ys)"

definition stable_sort :: "('a \<Rightarrow> 'a \<Rightarrow> bool) \<Rightarrow> 'a list \<Rightarrow> 'a list" where
  "stable_sort before xs = foldr (stable_insert before) xs []"

definition spec_pipeline ::
  "runtime \<Rightarrow> company list \<Rightarrow> string \<Rightarrow> string \<Rightarrow> string \<Rightarrow> sort_key \<Rightarrow> company list" where
  "spec_pipeline rt companies text loc ind key =
     stable_sort (spec_before rt key)
       (filter (\<lambda>c. ind = ''All'' \<or> industry c = ind)
         (filter (\<lambda>c. loc = ''All'' \<or> location c = loc)
           (if text \<noteq> [] then filter (spec_search_match rt text) companies
            else companies)))"

text \<open>
  What the host guarantees of \<^verbatim>\<open>localeCompare\<close>: it is a consistent comparator. The sign
  of the result flips with the arguments, and "not after" is transitive.
\<close>

definition consistent_comparator :: "(string \<Rightarrow> string \<Rightarrow> int) \<Rightarrow> bool" where
  "consistent_comparator cmp \<longleftrightarrow>
     (\<forall>s t. (cmp s t < 0) = (0 < cmp t s)) \<and>
     (\<forall>s t u. cmp s t \<le> 0 \<and> cmp t u \<le> 0 \<longrightarrow> cmp s u \<le> 0)"

section \<open>The data loader (\<^verbatim>\<open>fetchCompanies\<close>)\<close>

text \<open>
  A value that a promise rejects with, as far as the component reads it: its
  \<^verbatim>\<open>message\<close> property, if it has one.
\<close>

datatype js_error = JsError "string option"

text \<open>
  The response of \<^verbatim>\<open>fetch\<close>: its status, and what \<^verbatim>\<open>res.json()\<close> settles with (the
  parsed collection, or the error of a body that is not JSON). \<^verbatim>\<open>res.ok\<close> is true for the
  statuses 200 to 299.
\<close>

record response =
  status :: nat
  json :: "js_error + company list"

definition ok :: "response \<Rightarrow> bool" where
  "ok res \<longleftrightarrow> 200 \<le> status res \<and> status res \<le> 299"

text \<open>\<^verbatim>\<open>fetch\<close> itself rejects (a network error) or resolves with a response.\<close>

datatype fetch_outcome = Rejected js_error | Resolved response

text \<open>The decimal digits of a number, as the template literal writes the status.\<close>

fun show_nat :: "nat \<Rightarrow> string" where
  "show_nat n =
     (if n < 10 then [char_of (48 + n)]
      else show_nat (n div 10) @ [char_of (48 + n mod 10)])"

declare show_nat.simps [simp del]

text \<open>Reading a number from its decimal digits.\<close>

definition read_nat :: "string \<Rightarrow> nat" where
  "read_nat s = foldl (\<lambda>a c. 10 * a + (of_char c - 48)) 0 s"

definition fetchCompanies :: "fetch_outcome \<Rightarrow> js_error + company list" where
  "fetchCompanies out =
     (case out of
        Rejected e \<Rightarrow> Inl e
      | Resolved res \<Rightarrow>
          if \<not> ok res
          then Inl (JsError (Some (''Failed to load companies: '' @ show_nat (status res))))
          else json res)"

text \<open>\<^verbatim>\<open>err.message || "Unknown error"\<close>: a missing or empty message is falsy.\<close>

fun error_message :: "js_error \<Rightarrow> string" where
  "error_message (JsError None) = ''Unknown error''"
| "error_message (JsError (Some m)) = (if m \<noteq> [] then m else ''Unknown error'')"

section \<open>The component: state, events, effects\<close>

text \<open>
  The state variables of \<^verbatim>\<open>CompaniesDirectory\<close>. The filters \<^verbatim>\<open>location\<close>, \<^verbatim>\<open>industry\<close> and
  \<^verbatim>\<open>sort\<close> are \<open>locationFilter\<close>, \<open>industryFilter\<close> and \<open>sortKey\<close> here. \<open>mounted\<close> is the flag
  of the fetch effect. \<open>timer\<close> is the pending debounce timer: the milliseconds left until
  it fires and the search text its callback has captured.
\<close>

record component =
  companies :: "company list"
  loading :: bool
  error :: "string option"
  search :: string
  debouncedSearch :: string
  locationFilter :: string
  industryFilter :: string
  sortKey :: string
  page :: int
  mounted :: bool
  timer :: "(nat \<times> string) option"

text \<open>
  The state after the first render and its effects: the fetch is pending, and the
  debounce effect has started a timer for the initial search text.
\<close>

definition initial :: component where
  "initial =
     \<lparr>companies = [], loading = True, error = None, search = [], debouncedSearch = [],
      locationFilter = ''All'', industryFilter = ''All'', sortKey = ''name-asc'', page = 1,
      mounted = True, timer = Some (300, [])\<rparr>"

text \<open>
  What happens to the component: the search input changes, a select changes, a page
  button is clicked, time passes (milliseconds), the fetch settles, the component is torn
  down.
\<close>

datatype event =
    Change string
  | SelectLocation string
  | SelectIndustry string
  | SelectSort string
  | Click page_button
  | Elapse nat
  | Settle fetch_outcome
  | Unmount

text \<open>
  The state updates of the handlers. When the time that passes reaches what is left on
  the timer, its callback runs \<^verbatim>\<open>setDebouncedSearch\<close> with the captured text. The
  handlers of the fetch do nothing once \<open>mounted\<close> is false. Tearing down runs the cleanups:
  the flag is cleared and the timer is cancelled.
\<close>

fun handle :: "runtime \<Rightarrow> event \<Rightarrow> component \<Rightarrow> component" where
  "handle rt (Change v) s = s\<lparr>search := v\<rparr>"
| "handle rt (SelectLocation v) s = s\<lparr>locationFilter := v\<rparr>"
| "handle rt (SelectIndustry v) s = s\<lparr>industryFilter := v\<rparr>"
| "handle rt (SelectSort v) s = s\<lparr>sortKey := v\<rparr>"
| "handle rt (Click b) s =
     s\<lparr>page := click
        (totalPages (filtered rt (companies s) (debouncedSearch s) (locationFilter s)
           (industryFilter s) (sortKey s)))
        b (page s)\<rparr>"
| "handle rt (Elapse d) s =
     (case timer s of
        None \<Rightarrow> s
      | Some (left, captured) \<Rightarrow>
          if left \<le> d then s\<lparr>debouncedSearch := captured, timer := None\<rparr>
          else s\<lparr>timer := Some (left - d, captured)\<rparr>)"
| "handle rt (Settle out) s =
     (if \<not> mounted s then s
      else case fetchCompanies out of
             Inr data \<Rightarrow> s\<lparr>companies := data, loading := False\<rparr>
           | Inl err \<Rightarrow> s\<lparr>error := Some (error_message err), loading := False\<rparr>)"
| "handle rt Unmount s = s\<lparr>mounted := False, timer := None\<rparr>"

text \<open>
  The effects that run after a render, each when one of its dependencies has changed
  since the previous render: the debounce effect (dependency \<^verbatim>\<open>search\<close>) cancels the
  pending timer and starts one of 300 ms that captures the new text; the reset effect
  (dependencies \<^verbatim>\<open>debouncedSearch\<close>, \<^verbatim>\<open>location\<close>, \<^verbatim>\<open>industry\<close>, \<^verbatim>\<open>sort\<close>) sets the page to 1.
\<close>

definition query_inputs :: "component \<Rightarrow> string \<times> string \<times> string \<times> string" where
  "query_inputs s = (debouncedSearch s, locationFilter s, industryFilter s, sortKey s)"

definition effects :: "component \<Rightarrow> component \<Rightarrow> component" where
  "effects old new =
     (let s1 = (if search new \<noteq> search old
                then new\<lparr>timer := Some (300, search new)\<rparr> else new);
          s2 = (if query_inputs s1 \<noteq> query_inputs old then s1\<lparr>page := 1\<rparr> else s1)
      in s2)"

text \<open>One event: its handler, then the effects. A component torn down renders no more.\<close>

definition step :: "runtime \<Rightarrow> event \<Rightarrow> component \<Rightarrow> component" where
  "step rt e s = (if mounted s then effects s (handle rt e s) else s)"

definition run :: "runtime \<Rightarrow> component \<Rightarrow> event list \<Rightarrow> component" where
  "run rt s es = foldl (\<lambda>s e. step rt e s) s es"

text \<open>What the component renders: the three early returns of the function.\<close>

datatype view = LoadingView | ErrorView string | DirectoryView

definition render :: "component \<Rightarrow> view" where
  "render s =
     (if loading s then LoadingView
      else case error s of
             None \<Rightarrow> DirectoryView
           | Some m \<Rightarrow> if m \<noteq> [] then ErrorView m else DirectoryView)"

text \<open>The event is the settling of the fetch.\<close>

fun is_settle :: "event \<Rightarrow> bool" where
  "is_settle (Settle out) = True"
| "is_settle e = False"

text \<open>
  The texts that an event hands to \<^verbatim>\<open>setDebouncedSearch\<close>, and those of a sequence of
  events, in order.
\<close>

fun propagated :: "event \<Rightarrow> component \<Rightarrow> string list" where
  "propagated (Elapse d) s =
     (case timer s of
        None \<Rightarrow> []
      | Some (left, captured) \<Rightarrow> if left \<le> d then [captured] else [])"
| "propagated e s = []"

fun propagations :: "runtime \<Rightarrow> component \<Rightarrow> event list \<Rightarrow> string list" where
  "propagations rt s [] = []"
| "propagations rt s (e # es) =
     (if mounted s then propagated e s else []) @ propagations rt (step rt e s) es"

text \<open>
  A burst of typing: each change of the input followed by the time that passes before
  the next event. In \<open>changes prev vs\<close> every text differs from the one before it, the
  first from \<open>prev\<close>.
\<close>

fun typing :: "(string \<times> nat) list \<Rightarrow> event list" where
  "typing [] = []"
| "typing ((v, gap) # rest) = Change v # Elapse gap # typing rest"

fun changes :: "string \<Rightarrow> string list \<Rightarrow> bool" where
  "changes prev [] = True"
| "changes prev (v # vs) = (v \<noteq> prev \<and> changes v vs)"

section \<open>Sample data for the concrete instances\<close>

text \<open>
  A runtime for the concrete instances: lower-casing of the letters A to Z, and the
  code-unit order as the collation.
\<close>

definition ascii_lower :: "string \<Rightarrow> string" where
  "ascii_lower s =
     map (\<lambda>c. if CHR ''A'' \<le> c \<and> c \<le> CHR ''Z'' then char_of (of_char c + (32::nat)) else c) s"

definition sample_runtime :: runtime where
  "sample_runtime = \<lparr>toLowerCase = ascii_lower, localeCompare = default_compare\<rparr>"

definition acme :: company where
  "acme = \<lparr>cid = 1, name = ''Acme'', industry = ''Software'', location = ''Pune'',
           employees = 120, description = Some ''Cloud tools'', website = ''https://acme.example''\<rparr>"

definition bolt :: company where
  "bolt = \<lparr>cid = 2, name = ''Bolt'', industry = ''Energy'', location = ''Delhi'',
           employees = 45, description = None, website = ''https://bolt.example''\<rparr>"

definition core :: company where
  "core = \<lparr>cid = 3, name = ''Core'', industry = ''Software'', location = ''Delhi'',
           employees = 120, description = Some ''Acme partner'', website = ''https://core.example''\<rparr>"

definition nine :: "company list" where
  "nine = [acme, bolt, core, acme, bolt, core, acme, bolt, core]"

definition sample_burst :: "(string \<times> nat) list" where
  "sample_burst = [(''a'', 100), (''ac'', 120), (''acm'', 50)]"

definition not_found :: response where
  "not_found = \<lparr>status = 404, json = Inl (JsError None)\<rparr>"

definition found :: response where
  "found = \<lparr>status = 200, json = Inr [acme, bolt]\<rparr>"

section \<open>Facts about the built-ins\<close>

lemmas pipeline_defs =
  filtered_def apply_sort_def apply_industry_def apply_location_def apply_search_def
  search_match_def trim_def is_white_space_def

lemmas sample_defs =
  sample_runtime_def ascii_lower_def default_compare_def acme_def bolt_def core_def

lemma set_insert_by: "set (insert_by cmp x ys) = insert x (set ys)"
  by (induction ys) auto

lemma set_array_sort: "set (array_sort cmp xs) = set xs"
  by (induction xs) (simp_all add: set_insert_by)

lemma mset_insert_by: "mset (insert_by cmp x ys) = add_mset x (mset ys)"
  by (induction ys) auto

lemma mset_array_sort: "mset (array_sort cmp xs) = mset xs"
  by (induction xs) (simp_all add: mset_insert_by)

lemma set_apply_sort: "set (apply_sort rt sortk xs) = set xs"
  by (simp add: apply_sort_def Let_def set_array_sort)

lemma set_apply_search: "set (apply_search rt s xs) \<subseteq> set xs"
  by (auto simp: apply_search_def Let_def)

lemma set_apply_location: "set (apply_location loc xs) \<subseteq> set xs"
  by (auto simp: apply_location_def)

lemma set_apply_industry: "set (apply_industry ind xs) \<subseteq> set xs"
  by (auto simp: apply_industry_def)

lemma filtered_Nil: "filtered rt [] txt loc ind sortk = []"
  by (simp add: filtered_def apply_sort_def apply_industry_def apply_location_def
      apply_search_def)

subsection \<open>Pages\<close>

lemma ceiling_eighth: "\<lceil>real n / 8\<rceil> = (int n + 7) div 8"
proof -
  have "\<lceil>real_of_int (int n) / real_of_int 8\<rceil> = - (- int n div 8)"
    by (rule ceiling_divide_eq_div)
  also have "\<dots> = (int n + 7) div 8"
    by presburger
  finally show ?thesis by simp
qed

lemma totalPages_div: "totalPages flt = max 1 ((int (length flt) + 7) div 8)"
  using ceiling_eighth [of "length flt"] by (simp add: totalPages_def PAGE_SIZE_def)

lemma paginated_take_drop:
  "paginated flt (int n + 1) = take 8 (drop (n * 8) flt)"
  by (auto simp: paginated_def slice_def PAGE_SIZE_def Let_def min_def
      nat_diff_distrib nat_mult_distrib nat_add_distrib)

lemma concat_pages_take:
  "concat (map (paginated flt) [1..int n]) = take (n * 8) flt"
proof (induction n)
  case 0
  then show ?case by simp
next
  case (Suc n)
  have "[1..int (Suc n)] = [1..int n] @ [int n + 1]"
    by (simp add: upto_rec2 add.commute)
  then have "concat (map (paginated flt) [1..int (Suc n)])
      = concat (map (paginated flt) [1..int n]) @ paginated flt (int n + 1)"
    by simp
  also have "\<dots> = take (n * 8) flt @ take 8 (drop (n * 8) flt)"
    by (simp only: Suc.IH paginated_take_drop)
  also have "\<dots> = take (n * 8 + 8) flt"
    by (simp only: take_add)
  finally show ?case by (simp add: add.commute)
qed

lemma click_in_range:
  "1 \<le> p \<Longrightarrow> p \<le> tot \<Longrightarrow> 1 \<le> click tot b p \<and> click tot b p \<le> tot"
  by (cases b) auto

lemma clicks_in_range:
  "1 \<le> p \<Longrightarrow> p \<le> tot \<Longrightarrow> 1 \<le> clicks tot bs p \<and> clicks tot bs p \<le> tot"
  unfolding clicks_def
proof (induction bs arbitrary: p)
  case Nil
  then show ?case by simp
next
  case (Cons b bs)
  have "1 \<le> click tot b p \<and> click tot b p \<le> tot"
    using Cons.prems by (rule click_in_range)
  then show ?case
    using Cons.IH [of "click tot b p"] by simp
qed

subsection \<open>Sorting\<close>

lemma sorted_insert_by:
  assumes tot: "\<And>a b. 0 < cmp a b \<Longrightarrow> cmp b a \<le> 0"
    and trans: "\<And>a b c. cmp a b \<le> 0 \<Longrightarrow> cmp b c \<le> 0 \<Longrightarrow> cmp a c \<le> 0"
    and "sorted_wrt (\<lambda>a b. cmp a b \<le> 0) ys"
  shows "sorted_wrt (\<lambda>a b. cmp a b \<le> 0) (insert_by cmp x ys)"
  using assms(3)
proof (induction ys)
  case Nil
  then show ?case by simp
next
  case (Cons y ys)
  show ?case
  proof (cases "cmp x y \<le> 0")
    case True
    then have "\<forall>z\<in>set ys. cmp x z \<le> 0"
      using Cons.prems trans by auto
    with True Cons.prems show ?thesis by simp
  next
    case False
    then have "cmp y x \<le> 0" using tot [of x y] by simp
    with False Cons show ?thesis by (auto simp: set_insert_by)
  qed
qed

lemma sorted_array_sort:
  assumes "\<And>a b. 0 < cmp a b \<Longrightarrow> cmp b a \<le> 0"
    and "\<And>a b c. cmp a b \<le> 0 \<Longrightarrow> cmp b c \<le> 0 \<Longrightarrow> cmp a c \<le> 0"
  shows "sorted_wrt (\<lambda>a b. cmp a b \<le> 0) (array_sort cmp xs)"
proof (induction xs)
  case Nil
  show ?case by simp
next
  case (Cons x xs)
  show ?case using sorted_insert_by [of cmp, OF assms Cons] by simp
qed

lemma filter_insert_by:
  assumes "\<And>y. P x \<Longrightarrow> P y \<Longrightarrow> cmp x y \<le> 0"
  shows "filter P (insert_by cmp x ys) = (if P x then x # filter P ys else filter P ys)"
  using assms by (induction ys) auto

lemma filter_array_sort:
  assumes "\<And>x y. P x \<Longrightarrow> P y \<Longrightarrow> cmp x y \<le> 0"
  shows "filter P (array_sort cmp xs) = filter P xs"
proof (induction xs)
  case Nil
  show ?case by simp
next
  case (Cons x xs)
  have "filter P (insert_by cmp x (array_sort cmp xs))
      = (if P x then x # filter P (array_sort cmp xs) else filter P (array_sort cmp xs))"
    using assms by (rule filter_insert_by)
  with Cons show ?case by simp
qed

lemma distinct_array_sort: "distinct (array_sort cmp xs) = distinct xs"
  using mset_array_sort [of cmp xs] by (rule mset_eq_imp_distinct_iff)

subsection \<open>Distinct values\<close>

lemma set_foldl_set_add: "set (foldl set_add acc xs) = set acc \<union> set xs"
  by (induction xs arbitrary: acc) (auto simp: set_add_def)

lemma distinct_foldl_set_add: "distinct acc \<Longrightarrow> distinct (foldl set_add acc xs)"
  by (induction xs arbitrary: acc) (auto simp: set_add_def)

lemma set_new_Set: "set (new_Set xs) = set xs"
  by (simp add: new_Set_def set_foldl_set_add)

lemma distinct_new_Set: "distinct (new_Set xs)"
  by (simp add: new_Set_def distinct_foldl_set_add)

lemma default_compare_le: "default_compare x y \<le> 0 \<longleftrightarrow> x \<le> y"
  by (auto simp: default_compare_def)

lemma sorted_default_sort: "sorted (array_sort default_compare xs)"
proof -
  have "sorted_wrt (\<lambda>a b. default_compare a b \<le> 0) (array_sort default_compare xs)"
    by (rule sorted_array_sort) (auto simp: default_compare_def split: if_splits)
  then show ?thesis by (simp add: default_compare_le)
qed

lemma default_sort_new_Set:
  "array_sort default_compare (new_Set xs) = sorted_list_of_set (set xs)"
proof -
  have "sorted (array_sort default_compare (new_Set xs))"
    by (rule sorted_default_sort)
  moreover have "distinct (array_sort default_compare (new_Set xs))"
    by (simp add: distinct_array_sort distinct_new_Set)
  moreover have "set (array_sort default_compare (new_Set xs)) = set xs"
    by (simp add: set_array_sort set_new_Set)
  ultimately show ?thesis
    by (metis sorted_list_of_set.idem_if_sorted_distinct)
qed

subsection \<open>Trimming\<close>

lemma all_dropWhile_iff:
  "(\<forall>x\<in>set (dropWhile P s). P x) \<longleftrightarrow> (\<forall>x\<in>set s. P x)"
proof
  assume a: "\<forall>x\<in>set (dropWhile P s). P x"
  have "dropWhile P s = []"
  proof (rule ccontr)
    assume n: "dropWhile P s \<noteq> []"
    then have "\<not> P (hd (dropWhile P s))" by (rule hd_dropWhile)
    moreover have "hd (dropWhile P s) \<in> set (dropWhile P s)" using n by (rule hd_in_set)
    ultimately show False using a by blast
  qed
  then show "\<forall>x\<in>set s. P x" by (simp only: dropWhile_eq_Nil_conv)
next
  assume "\<forall>x\<in>set s. P x"
  then show "\<forall>x\<in>set (dropWhile P s). P x" by (blast dest: set_dropWhileD)
qed

lemma trim_Nil_iff: "trim s = [] \<longleftrightarrow> (\<forall>c\<in>set s. is_white_space c)"
  by (simp add: trim_def all_dropWhile_iff)

lemma trim_split:
  "s = takeWhile is_white_space s @ trim s
       @ rev (takeWhile is_white_space (rev (dropWhile is_white_space s)))"
proof -
  let ?d = "dropWhile is_white_space s"
  have "rev (rev ?d) = rev (takeWhile is_white_space (rev ?d) @ dropWhile is_white_space (rev ?d))"
    by (simp only: takeWhile_dropWhile_id)
  then have "?d = trim s @ rev (takeWhile is_white_space (rev ?d))"
    by (simp only: rev_rev_ident rev_append trim_def)
  moreover have "s = takeWhile is_white_space s @ ?d"
    by simp
  ultimately show ?thesis by simp
qed

lemma trim_ends:
  assumes "trim s \<noteq> []"
  shows "\<not> is_white_space (hd (trim s)) \<and> \<not> is_white_space (last (trim s))"
proof -
  let ?d = "dropWhile is_white_space s"
  let ?e = "dropWhile is_white_space (rev ?d)"
  have t: "trim s = rev ?e" by (simp only: trim_def)
  have e: "?e \<noteq> []" using assms unfolding t by simp
  have d: "?d \<noteq> []"
  proof
    assume "?d = []"
    then have "?e = []" by (simp only: rev.simps dropWhile.simps)
    with e show False by contradiction
  qed
  have "last (trim s) = hd ?e" using e unfolding t by (simp only: last_rev)
  moreover have "\<not> is_white_space (hd ?e)" using e by (rule hd_dropWhile)
  moreover have "hd (trim s) = hd ?d"
  proof -
    have "s = takeWhile is_white_space s @ trim s
       @ rev (takeWhile is_white_space (rev ?d))" by (rule trim_split)
    moreover have "s = takeWhile is_white_space s @ ?d" by simp
    ultimately have "?d = trim s @ rev (takeWhile is_white_space (rev ?d))"
      by (metis same_append_eq)
    then show ?thesis using assms by (metis hd_append2)
  qed
  moreover have "\<not> is_white_space (hd ?d)" using d by (rule hd_dropWhile)
  ultimately show ?thesis by simp
qed

subsection \<open>The pipeline against its specification\<close>

lemma str_includes_sublist: "str_includes s q \<longleftrightarrow> sublist q s"
  by (induction s) (auto simp: sublist_Cons_right)

lemma search_match_spec:
  assumes "toLowerCase rt [] = []"
  shows "search_match rt (toLowerCase rt txt) c \<longleftrightarrow> spec_search_match rt txt c"
proof (cases "toLowerCase rt txt = []")
  case True
  then show ?thesis
    by (simp add: search_match_def spec_search_match_def str_includes_sublist)
next
  case False
  then have "\<not> sublist (toLowerCase rt txt) (toLowerCase rt [])"
    using assms by simp
  then show ?thesis
    by (auto simp: search_match_def spec_search_match_def str_includes_sublist
        split: option.splits)
qed

lemma array_sort_stable_sort:
  "array_sort cmp xs = stable_sort (\<lambda>a b. cmp a b \<le> 0) xs"
proof -
  have ins: "insert_by cmp x ys = stable_insert (\<lambda>a b. cmp a b \<le> 0) x ys" for x ys
    by (induction ys) simp_all
  show ?thesis
    by (induction xs) (simp_all add: stable_sort_def ins)
qed


lemma apply_sort_keys:
  "apply_sort rt ''name-asc'' xs = stable_sort (spec_before rt NameAsc) xs"
  "apply_sort rt ''name-desc'' xs = stable_sort (spec_before rt NameDesc) xs"
  "apply_sort rt ''employees-asc'' xs = stable_sort (spec_before rt EmployeesAsc) xs"
  "apply_sort rt ''employees-desc'' xs = stable_sort (spec_before rt EmployeesDesc) xs"
proof -
  have "(\<lambda>a b. localeCompare rt (name a) (name b) \<le> 0) = spec_before rt NameAsc"
    and "(\<lambda>a b. localeCompare rt (name b) (name a) \<le> 0) = spec_before rt NameDesc"
    and "(\<lambda>a b. employees a - employees b \<le> 0) = spec_before rt EmployeesAsc"
    and "(\<lambda>a b. employees b - employees a \<le> 0) = spec_before rt EmployeesDesc"
    by (intro ext, simp)+
  then show
    "apply_sort rt ''name-asc'' xs = stable_sort (spec_before rt NameAsc) xs"
    "apply_sort rt ''name-desc'' xs = stable_sort (spec_before rt NameDesc) xs"
    "apply_sort rt ''employees-asc'' xs = stable_sort (spec_before rt EmployeesAsc) xs"
    "apply_sort rt ''employees-desc'' xs = stable_sort (spec_before rt EmployeesDesc) xs"
    by (simp_all add: apply_sort_def array_sort_stable_sort)
qed

lemma filters_spec:
  "apply_industry ind (apply_location loc xs)
   = filter (\<lambda>c. ind = ''All'' \<or> industry c = ind) (filter (\<lambda>c. loc = ''All'' \<or> location c = loc) xs)"
  by (simp add: apply_industry_def apply_location_def)

lemma apply_search_spec:
  assumes "toLowerCase rt [] = []"
  shows "apply_search rt txt xs
   = (if trim txt \<noteq> [] then filter (spec_search_match rt (trim txt)) xs else xs)"
proof -
  have "search_match rt (toLowerCase rt (trim txt)) = spec_search_match rt (trim txt)"
    by (intro ext) (rule search_match_spec [OF assms])
  then show ?thesis by (simp add: apply_search_def)
qed

subsection \<open>Comparators of the four sort keys\<close>

lemma consistent_flip:
  assumes "consistent_comparator cmp"
  shows "0 < cmp s t \<Longrightarrow> cmp t s \<le> 0"
    and "cmp s t \<le> 0 \<Longrightarrow> cmp t u \<le> 0 \<Longrightarrow> cmp s u \<le> 0"
    and "cmp s t = 0 \<Longrightarrow> cmp t s = 0"
proof -
  have flip: "(cmp a b < 0) = (0 < cmp b a)" for a b
    using assms by (simp add: consistent_comparator_def)
  show "0 < cmp s t \<Longrightarrow> cmp t s \<le> 0"
    using flip [of t s] by simp
  show "cmp s t \<le> 0 \<Longrightarrow> cmp t u \<le> 0 \<Longrightarrow> cmp s u \<le> 0"
    using assms unfolding consistent_comparator_def by blast
  show "cmp s t = 0 \<Longrightarrow> cmp t s = 0"
    using flip [of t s] flip [of s t] by linarith
qed

lemma name_asc_sorted:
  assumes "consistent_comparator (localeCompare rt)"
  shows "sorted_wrt (\<lambda>a b. localeCompare rt (name a) (name b) \<le> 0)
           (array_sort (\<lambda>a b. localeCompare rt (name a) (name b)) xs)"
  by (rule sorted_array_sort) (blast intro: consistent_flip [OF assms])+

lemma name_desc_sorted:
  assumes "consistent_comparator (localeCompare rt)"
  shows "sorted_wrt (\<lambda>a b. localeCompare rt (name b) (name a) \<le> 0)
           (array_sort (\<lambda>a b. localeCompare rt (name b) (name a)) xs)"
  by (rule sorted_array_sort) (blast intro: consistent_flip [OF assms])+

lemma name_ties:
  assumes "consistent_comparator (localeCompare rt)"
    and "localeCompare rt (name x) k = 0" and "localeCompare rt (name y) k = 0"
  shows "localeCompare rt (name x) (name y) \<le> 0"
proof -
  have "localeCompare rt k (name y) = 0"
    using assms(1,3) by (rule consistent_flip(3))
  then show ?thesis
    using consistent_flip(2) [OF assms(1), of "name x" k "name y"] assms(2) by simp
qed

lemma employees_asc_sorted:
  "sorted_wrt (\<lambda>a b. employees a \<le> employees b) (array_sort (\<lambda>a b. employees a - employees b) xs)"
  using sorted_array_sort [of "\<lambda>a b. employees a - employees b" xs] by simp

lemma employees_desc_sorted:
  "sorted_wrt (\<lambda>a b. employees b \<le> employees a) (array_sort (\<lambda>a b. employees b - employees a) xs)"
  using sorted_array_sort [of "\<lambda>a b. employees b - employees a" xs] by simp

lemma filtered_sort_keys:
  "filtered rt cs txt loc ind ''name-asc''
     = array_sort (\<lambda>a b. localeCompare rt (name a) (name b)) (pre_sort rt cs txt loc ind)"
  "filtered rt cs txt loc ind ''name-desc''
     = array_sort (\<lambda>a b. localeCompare rt (name b) (name a)) (pre_sort rt cs txt loc ind)"
  "filtered rt cs txt loc ind ''employees-asc''
     = array_sort (\<lambda>a b. employees a - employees b) (pre_sort rt cs txt loc ind)"
  "filtered rt cs txt loc ind ''employees-desc''
     = array_sort (\<lambda>a b. employees b - employees a) (pre_sort rt cs txt loc ind)"
  by (simp_all add: filtered_def apply_sort_def)

lemma consistent_default_compare: "consistent_comparator default_compare"
  unfolding consistent_comparator_def default_compare_def
  by (auto split: if_splits)

subsection \<open>The component\<close>

lemma run_Cons: "run rt s (e # es) = run rt (step rt e s) es"
  by (simp add: run_def)

lemma run_append: "run rt s (xs @ ys) = run rt (run rt s xs) ys"
  by (simp add: run_def)

lemma propagations_append:
  "propagations rt s (xs @ ys) = propagations rt s xs @ propagations rt (run rt s xs) ys"
  by (induction xs arbitrary: s) (simp_all add: run_def)

lemma change_then_wait:
  assumes "mounted s" and "v \<noteq> search s" and "gap < 300"
  shows "mounted (step rt (Elapse gap) (step rt (Change v) s))"
    and "search (step rt (Elapse gap) (step rt (Change v) s)) = v"
    and "timer (step rt (Elapse gap) (step rt (Change v) s)) = Some (300 - gap, v)"
    and "debouncedSearch (step rt (Elapse gap) (step rt (Change v) s)) = debouncedSearch s"
    and "propagations rt s [Change v, Elapse gap] = []"
  using assms
  by (simp_all add: step_def effects_def query_inputs_def Let_def)

lemma burst_invariant:
  assumes "mounted s" and "bs \<noteq> []" and "changes (search s) (map fst bs)"
    and "list_all (\<lambda>(v, gap). gap < 300) bs"
  shows "mounted (run rt s (typing bs))
    \<and> search (run rt s (typing bs)) = fst (last bs)
    \<and> timer (run rt s (typing bs)) = Some (300 - snd (last bs), fst (last bs))
    \<and> debouncedSearch (run rt s (typing bs)) = debouncedSearch s
    \<and> propagations rt s (typing bs) = []"
  using assms
proof (induction bs arbitrary: s)
  case Nil
  then show ?case by simp
next
  case (Cons b bs)
  obtain v gap where b: "b = (v, gap)" by (cases b)
  define s2 where "s2 = step rt (Elapse gap) (step rt (Change v) s)"
  have v: "v \<noteq> search s" and gap: "gap < 300"
    using Cons.prems b by simp_all
  note one = change_then_wait [OF Cons.prems(1) v gap, of rt, folded s2_def]
  have r: "run rt s (typing (b # bs)) = run rt s2 (typing bs)"
    by (simp add: b run_def s2_def)
  have p: "propagations rt s (typing (b # bs)) = propagations rt s2 (typing bs)"
    using propagations_append [of rt s "[Change v, Elapse gap]" "typing bs"] one(5)
    by (simp add: b run_def s2_def)
  show ?case
  proof (cases "bs = []")
    case True
    then show ?thesis using one by (simp add: b run_def s2_def)
  next
    case False
    have "changes (search s2) (map fst bs)" and "list_all (\<lambda>(v, gap). gap < 300) bs"
      using Cons.prems b one(2) by simp_all
    then show ?thesis
      using Cons.IH [OF one(1) False] False one(4) by (simp add: r p)
  qed
qed

lemma step_keeps_load:
  assumes "\<not> is_settle e"
  shows "companies (step rt e s) = companies s \<and> loading (step rt e s) = loading s
    \<and> error (step rt e s) = error s"
  using assms
  by (cases e) (simp_all add: step_def effects_def Let_def split: option.splits prod.splits)

lemma run_keeps_load:
  assumes "list_all (\<lambda>e. \<not> is_settle e) es"
  shows "companies (run rt s es) = companies s \<and> loading (run rt s es) = loading s
    \<and> error (run rt s es) = error s"
  using assms
proof (induction es arbitrary: s)
  case Nil
  show ?case by (simp add: run_def)
next
  case (Cons e es)
  then have "\<not> is_settle e" and "list_all (\<lambda>e. \<not> is_settle e) es" by simp_all
  then show ?case
    using Cons.IH [of "step rt e s"] step_keeps_load [of e rt s] by (simp add: run_Cons)
qed

lemma error_message_visible: "error_message e \<noteq> []"
  by (cases e rule: error_message.cases) simp_all

lemma read_nat_snoc: "read_nat (s @ [c]) = 10 * read_nat s + (of_char c - 48)"
  by (simp add: read_nat_def)

lemma digit_value: "d < 10 \<Longrightarrow> of_char (char_of (48 + d) :: char) - 48 = (d::nat)"
  by simp

lemma read_show_nat: "read_nat (show_nat n) = n"
proof (induction n rule: show_nat.induct)
  case (1 n)
  show ?case
  proof (cases "n < 10")
    case True
    then show ?thesis
      using digit_value [of n] by (simp add: show_nat.simps [of n] read_nat_def)
  next
    case False
    have "read_nat (show_nat n) = 10 * read_nat (show_nat (n div 10)) + n mod 10"
      using False digit_value [of "n mod 10"]
      by (simp add: show_nat.simps [of n] read_nat_snoc)
    then show ?thesis using 1 False by simp
  qed
qed

lemma show_404: "show_nat 404 = ''404''"
  by code_simp

subsection \<open>Concrete runs\<close>

lemma nine_eval: "filtered sample_runtime nine [] ''All'' ''All'' ''none'' = nine"
  by (simp add: pipeline_defs)

lemma nine_pages: "totalPages nine = 2"
  by (simp add: totalPages_def PAGE_SIZE_def nine_def)

section \<open>Claims\<close>

text \<open>
  C3. For every collection, search text, location filter, industry filter and sort key,
  every company of the pipeline's output is a company of the collection.
\<close>

theorem filtered_subset:
  "set (filtered rt cs txt loc ind sortk) \<subseteq> set cs"
proof -
  have "set (filtered rt cs txt loc ind sortk)
        = set (apply_industry ind (apply_location loc (apply_search rt txt cs)))"
    by (simp add: filtered_def set_apply_sort)
  also have "\<dots> \<subseteq> set (apply_location loc (apply_search rt txt cs))"
    by (rule set_apply_industry)
  also have "\<dots> \<subseteq> set (apply_search rt txt cs)"
    by (rule set_apply_location)
  also have "\<dots> \<subseteq> set cs"
    by (rule set_apply_search)
  finally show ?thesis .
qed

text \<open>
  C2. The pages 1 to \<open>totalPages\<close>, each the slice of 8 consecutive elements that starts
  at \<open>(page - 1) * 8\<close>, concatenated in order, are the pipeline's output: no element is
  dropped and none appears twice.
\<close>

theorem pages_concat:
  "concat (map (paginated (filtered rt cs txt loc ind sortk))
     [1..totalPages (filtered rt cs txt loc ind sortk)])
   = filtered rt cs txt loc ind sortk"
proof -
  let ?flt = "filtered rt cs txt loc ind sortk"
  define n where "n = nat (totalPages ?flt)"
  have tp: "totalPages ?flt = int n"
    by (simp add: n_def totalPages_div)
  have "int (length ?flt) \<le> 8 * ((int (length ?flt) + 7) div 8)"
    by presburger
  also have "\<dots> \<le> 8 * totalPages ?flt"
    by (simp add: totalPages_div)
  finally have "length ?flt \<le> n * 8"
    by (simp add: tp)
  then show ?thesis
    by (simp add: tp concat_pages_take)
qed

theorem pages_concat_witness:
  "concat (map (paginated nine) [1, 2]) = nine
   \<and> paginated nine 1 = [acme, bolt, core, acme, bolt, core, acme, bolt]
   \<and> paginated nine 2 = [core]"
  using pages_concat [of sample_runtime nine "[]" "''All''" "''All''" "''none''"]
  by (simp add: nine_eval nine_pages upto.simps paginated_def slice_def PAGE_SIZE_def nine_def)

text \<open>
  C4. The page count is at least 1: it is the ceiling of the filtered length over 8, and 1
  for the empty collection. From a page \<open>p\<close> with \<open>1 \<le> p \<le> totalPages\<close>, Prev gives
  \<open>max 1 (p - 1)\<close> and Next gives \<open>min totalPages (p + 1)\<close>, and after any sequence of
  clicks the page is still between 1 and \<open>totalPages\<close>.
\<close>

theorem page_bounds:
  assumes "1 \<le> p"
    and "p \<le> totalPages (filtered rt cs txt loc ind sortk)"
  shows "1 \<le> totalPages (filtered rt cs txt loc ind sortk)
    \<and> totalPages (filtered rt cs txt loc ind sortk)
        = max 1 \<lceil>real (length (filtered rt cs txt loc ind sortk)) / 8\<rceil>
    \<and> totalPages (filtered rt [] txt loc ind sortk) = 1
    \<and> click (totalPages (filtered rt cs txt loc ind sortk)) Prev p
        = max 1 (p - 1)
    \<and> click (totalPages (filtered rt cs txt loc ind sortk)) Next p
        = min (totalPages (filtered rt cs txt loc ind sortk)) (p + 1)
    \<and> 1 \<le> click (totalPages (filtered rt cs txt loc ind sortk)) b p
    \<and> click (totalPages (filtered rt cs txt loc ind sortk)) b p
        \<le> totalPages (filtered rt cs txt loc ind sortk)
    \<and> 1 \<le> clicks (totalPages (filtered rt cs txt loc ind sortk)) bs p
    \<and> clicks (totalPages (filtered rt cs txt loc ind sortk)) bs p
        \<le> totalPages (filtered rt cs txt loc ind sortk)"
  using click_in_range [OF assms, of b] clicks_in_range [OF assms, of bs]
  by (simp add: filtered_Nil totalPages_def PAGE_SIZE_def)

theorem page_bounds_witness:
  "(1::int) \<le> 2
   \<and> 2 \<le> totalPages (filtered sample_runtime nine [] ''All'' ''All'' ''none'')
   \<and> click (totalPages (filtered sample_runtime nine [] ''All'' ''All'' ''none'')) Next 2 = 2
   \<and> click (totalPages (filtered sample_runtime nine [] ''All'' ''All'' ''none'')) Prev 2 = 1
   \<and> clicks (totalPages (filtered sample_runtime nine [] ''All'' ''All'' ''none''))
        [Next, Prev, Prev, Next, Next] 2 = 2"
  using page_bounds [of 2 sample_runtime nine "[]" "''All''" "''All''" "''none''" Next
      "[Next, Prev, Prev, Next, Next]"]
  by (simp add: nine_eval nine_pages clicks_def)

text \<open>
  C9. The location options are "All" followed by the distinct locations of the collection,
  without duplicates, in lexicographic order of their code units; the industry options
  likewise. Here \<open>sorted\<close> is the lexicographic order on strings and
  \<open>sorted_list_of_set\<close> lists a finite set in that order, each element once.
\<close>

theorem options_sorted_distinct:
  "locations cs = ''All'' # sorted_list_of_set (location ` set cs)
   \<and> industries cs = ''All'' # sorted_list_of_set (industry ` set cs)
   \<and> distinct (tl (locations cs)) \<and> sorted (tl (locations cs))
   \<and> set (tl (locations cs)) = location ` set cs
   \<and> distinct (tl (industries cs)) \<and> sorted (tl (industries cs))
   \<and> set (tl (industries cs)) = industry ` set cs"
proof -
  have l: "locations cs = ''All'' # sorted_list_of_set (location ` set cs)"
    using default_sort_new_Set [of "map location cs"] by (simp add: locations_def)
  have i: "industries cs = ''All'' # sorted_list_of_set (industry ` set cs)"
    using default_sort_new_Set [of "map industry cs"] by (simp add: industries_def)
  show ?thesis by (simp add: l i)
qed

theorem options_sorted_distinct_witness:
  "locations [acme, bolt, core, bolt] = [''All'', ''Delhi'', ''Pune'']
   \<and> industries [acme, bolt, core, bolt] = [''All'', ''Energy'', ''Software'']
   \<and> sorted_list_of_set (location ` set [acme, bolt, core, bolt]) = [''Delhi'', ''Pune'']"
proof -
  have "locations [acme, bolt, core, bolt] = [''All'', ''Delhi'', ''Pune'']"
    by (simp add: locations_def new_Set_def set_add_def sample_defs less_char_def)
  moreover have "industries [acme, bolt, core, bolt] = [''All'', ''Energy'', ''Software'']"
    by (simp add: industries_def new_Set_def set_add_def sample_defs less_char_def)
  ultimately show ?thesis
    using options_sorted_distinct [of "[acme, bolt, core, bolt]"] by simp
qed

text \<open>
  C1, as stated: the pipeline is the specification's, which matches the search text as it
  is whenever it is non-empty. The code trims the text first: on the search text " " the
  specification's pipeline keeps only the companies with a space in one of the three
  fields, the code keeps every company.
\<close>

theorem pipeline_counterexample:
  "filtered sample_runtime [bolt] '' '' ''All'' ''All'' ''name-asc''
     \<noteq> spec_pipeline sample_runtime [bolt] '' '' ''All'' ''All'' NameAsc
   \<and> filtered sample_runtime [bolt] '' '' ''All'' ''All'' ''name-asc'' = [bolt]
   \<and> spec_pipeline sample_runtime [bolt] '' '' ''All'' ''All'' NameAsc = []"
  by code_simp

text \<open>
  C1, amended: for each of the four sort keys the pipeline is the specification's applied
  to the trimmed search text, so the substring match is on the text without its leading
  and trailing white space and happens when that is non-empty. The host's lower-casing
  maps the empty string to the empty string.
\<close>

theorem pipeline_trimmed:
  assumes "toLowerCase rt [] = []"
  shows "filtered rt cs txt loc ind ''name-asc''
      = spec_pipeline rt cs (trim txt) loc ind NameAsc
    \<and> filtered rt cs txt loc ind ''name-desc''
      = spec_pipeline rt cs (trim txt) loc ind NameDesc
    \<and> filtered rt cs txt loc ind ''employees-asc''
      = spec_pipeline rt cs (trim txt) loc ind EmployeesAsc
    \<and> filtered rt cs txt loc ind ''employees-desc''
      = spec_pipeline rt cs (trim txt) loc ind EmployeesDesc"
  unfolding filtered_def spec_pipeline_def apply_sort_keys filters_spec
    apply_search_spec [OF assms]
  by simp

theorem pipeline_trimmed_witness:
  "toLowerCase sample_runtime [] = []
   \<and> filtered sample_runtime [core, bolt, acme] '' aCMe '' ''All'' ''Software'' ''name-asc'' = [acme, core]
   \<and> spec_pipeline sample_runtime [core, bolt, acme] ''aCMe'' ''All'' ''Software'' NameAsc = [acme, core]"
proof -
  have h: "toLowerCase sample_runtime [] = []" by (simp add: sample_defs)
  have "trim '' aCMe '' = ''aCMe''"
    by (simp add: trim_def is_white_space_def)
  moreover have "spec_pipeline sample_runtime [core, bolt, acme] ''aCMe'' ''All'' ''Software'' NameAsc = [acme, core]"
    by code_simp
  ultimately show ?thesis using pipeline_trimmed [OF h, of "[core, bolt, acme]" "'' aCMe ''" "''All''" "''Software''"] h
    by simp
qed

text \<open>
  C6. For each of the four keys the sorted output is a permutation of the sequence before
  the sort, is ordered by the key's comparator (ascending or descending), and keeps the
  companies that tie under the key in the order they had before the sort. For the two
  name keys the order is the one \<^verbatim>\<open>localeCompare\<close> gives, a consistent comparator; ties
  are the names that compare equal to a given string \<open>k\<close>.
\<close>

theorem sort_stable_sorted:
  "(consistent_comparator (localeCompare rt) \<longrightarrow>
      sorted_wrt (\<lambda>a b. localeCompare rt (name a) (name b) \<le> 0)
        (filtered rt cs txt loc ind ''name-asc'')
    \<and> filter (\<lambda>c. localeCompare rt (name c) k = 0) (filtered rt cs txt loc ind ''name-asc'')
      = filter (\<lambda>c. localeCompare rt (name c) k = 0) (pre_sort rt cs txt loc ind)
    \<and> sorted_wrt (\<lambda>a b. localeCompare rt (name b) (name a) \<le> 0)
        (filtered rt cs txt loc ind ''name-desc'')
    \<and> filter (\<lambda>c. localeCompare rt (name c) k = 0) (filtered rt cs txt loc ind ''name-desc'')
      = filter (\<lambda>c. localeCompare rt (name c) k = 0) (pre_sort rt cs txt loc ind))
   \<and> sorted_wrt (\<lambda>a b. employees a \<le> employees b)
        (filtered rt cs txt loc ind ''employees-asc'')
   \<and> filter (\<lambda>c. employees c = n) (filtered rt cs txt loc ind ''employees-asc'')
      = filter (\<lambda>c. employees c = n) (pre_sort rt cs txt loc ind)
   \<and> sorted_wrt (\<lambda>a b. employees b \<le> employees a)
        (filtered rt cs txt loc ind ''employees-desc'')
   \<and> filter (\<lambda>c. employees c = n) (filtered rt cs txt loc ind ''employees-desc'')
      = filter (\<lambda>c. employees c = n) (pre_sort rt cs txt loc ind)
   \<and> mset (filtered rt cs txt loc ind sortk) = mset (pre_sort rt cs txt loc ind)"
proof -
  let ?P = "\<lambda>c. localeCompare rt (name c) k = 0"
  let ?Q = "\<lambda>c. employees c = n"
  let ?pre = "pre_sort rt cs txt loc ind"
  have names: "sorted_wrt (\<lambda>a b. localeCompare rt (name a) (name b) \<le> 0)
        (filtered rt cs txt loc ind ''name-asc'')
    \<and> filter ?P (filtered rt cs txt loc ind ''name-asc'') = filter ?P ?pre
    \<and> sorted_wrt (\<lambda>a b. localeCompare rt (name b) (name a) \<le> 0)
        (filtered rt cs txt loc ind ''name-desc'')
    \<and> filter ?P (filtered rt cs txt loc ind ''name-desc'') = filter ?P ?pre"
    if c: "consistent_comparator (localeCompare rt)"
  proof -
    have "filter ?P (array_sort (\<lambda>a b. localeCompare rt (name a) (name b)) ?pre) = filter ?P ?pre"
      by (rule filter_array_sort) (rule name_ties [OF c])
    moreover have "filter ?P (array_sort (\<lambda>a b. localeCompare rt (name b) (name a)) ?pre) = filter ?P ?pre"
      by (rule filter_array_sort) (rule name_ties [OF c])
    ultimately show ?thesis
      unfolding filtered_sort_keys
      using name_asc_sorted [OF c, of ?pre] name_desc_sorted [OF c, of ?pre] by simp
  qed
  have asc: "filter ?Q (array_sort (\<lambda>a b. employees a - employees b) ?pre) = filter ?Q ?pre"
    by (rule filter_array_sort) simp
  have desc: "filter ?Q (array_sort (\<lambda>a b. employees b - employees a) ?pre) = filter ?Q ?pre"
    by (rule filter_array_sort) simp
  have perm: "mset (filtered rt cs txt loc ind sortk) = mset ?pre"
    by (simp add: filtered_def apply_sort_def Let_def mset_array_sort)
  show ?thesis
    using names asc desc perm employees_asc_sorted [of ?pre] employees_desc_sorted [of ?pre]
    unfolding filtered_sort_keys by blast
qed

theorem sort_stable_sorted_witness:
  "consistent_comparator (localeCompare sample_runtime)
   \<and> filtered sample_runtime [core, bolt, acme] [] ''All'' ''All'' ''employees-asc'' = [bolt, core, acme]
   \<and> filtered sample_runtime [core, bolt, acme] [] ''All'' ''All'' ''employees-desc'' = [core, acme, bolt]
   \<and> filtered sample_runtime [core, bolt, acme] [] ''All'' ''All'' ''name-asc'' = [acme, bolt, core]
   \<and> filtered sample_runtime [core, bolt, acme] [] ''All'' ''All'' ''name-desc'' = [core, bolt, acme]
   \<and> filter (\<lambda>c. employees c = 120)
        (filtered sample_runtime [core, bolt, acme] [] ''All'' ''All'' ''employees-desc'')
      = [core, acme]"
proof -
  have c: "consistent_comparator (localeCompare sample_runtime)"
    by (simp add: sample_runtime_def consistent_default_compare)
  have pre: "pre_sort sample_runtime [core, bolt, acme] [] ''All'' ''All'' = [core, bolt, acme]"
    by (simp add: pipeline_defs)
  have "filtered sample_runtime [core, bolt, acme] [] ''All'' ''All'' ''employees-asc'' = [bolt, core, acme]"
    and "filtered sample_runtime [core, bolt, acme] [] ''All'' ''All'' ''employees-desc'' = [core, acme, bolt]"
    and "filtered sample_runtime [core, bolt, acme] [] ''All'' ''All'' ''name-asc'' = [acme, bolt, core]"
    and "filtered sample_runtime [core, bolt, acme] [] ''All'' ''All'' ''name-desc'' = [core, bolt, acme]"
    by code_simp+
  then show ?thesis
    using c sort_stable_sorted [of sample_runtime "[core, bolt, acme]" "[]" "''All''" "''All''"
        "''Core''" 120 "''name-asc''"]
    by (simp add: pre core_def acme_def bolt_def)
qed

text \<open>
  C10. A search text that is non-empty and all white space filters nothing: every company
  passes the search step, and the pipeline gives what it gives on the empty text. A search
  text with a character that is not white space is matched as \<open>toLowerCase (trim text)\<close>,
  where \<open>trim text\<close> is the text without a white-space prefix and a white-space suffix,
  and begins and ends with a character that is not white space.
\<close>

theorem search_trimmed:
  "(txt \<noteq> [] \<and> list_all is_white_space txt \<longrightarrow>
      apply_search rt txt cs = cs
      \<and> filtered rt cs txt loc ind sortk = filtered rt cs [] loc ind sortk)
   \<and> (list_ex (\<lambda>c. \<not> is_white_space c) txt \<longrightarrow>
      apply_search rt txt cs
        = filter (search_match rt (toLowerCase rt (trim txt))) cs
      \<and> (\<exists>pre post. txt = pre @ trim txt @ post
            \<and> list_all is_white_space pre \<and> list_all is_white_space post)
      \<and> trim txt \<noteq> []
      \<and> \<not> is_white_space (hd (trim txt)) \<and> \<not> is_white_space (last (trim txt)))"
proof (intro conjI impI)
  assume "txt \<noteq> [] \<and> list_all is_white_space txt"
  then have "trim txt = []"
    by (simp add: trim_Nil_iff list_all_iff)
  then show "apply_search rt txt cs = cs"
    and "filtered rt cs txt loc ind sortk = filtered rt cs [] loc ind sortk"
    by (simp_all add: filtered_def apply_search_def trim_def)
next
  assume "list_ex (\<lambda>c. \<not> is_white_space c) txt"
  then have t: "trim txt \<noteq> []"
    by (simp add: trim_Nil_iff list_ex_iff)
  then show "trim txt \<noteq> []" .
  from t show "apply_search rt txt cs
        = filter (search_match rt (toLowerCase rt (trim txt))) cs"
    by (simp add: apply_search_def)
  from t show "\<not> is_white_space (hd (trim txt))" and "\<not> is_white_space (last (trim txt))"
    using trim_ends [of "txt"] by simp_all
  let ?pre = "takeWhile is_white_space txt"
  let ?post = "rev (takeWhile is_white_space (rev (dropWhile is_white_space txt)))"
  have "txt = ?pre @ trim txt @ ?post" by (rule trim_split)
  moreover have "list_all is_white_space ?pre"
    by (auto simp: list_all_iff dest: set_takeWhileD)
  moreover have "list_all is_white_space ?post"
    by (auto simp: list_all_iff dest: set_takeWhileD)
  ultimately show "\<exists>pre post. txt = pre @ trim txt @ post
            \<and> list_all is_white_space pre \<and> list_all is_white_space post"
    by blast
qed

theorem search_trimmed_witness:
  "''  '' \<noteq> [] \<and> list_all is_white_space ''  ''
   \<and> apply_search sample_runtime ''  '' [acme, bolt, core] = [acme, bolt, core]
   \<and> list_ex (\<lambda>c. \<not> is_white_space c) '' BoLt  ''
   \<and> trim '' BoLt  '' = ''BoLt''
   \<and> apply_search sample_runtime '' BoLt  '' [acme, bolt, core] = [bolt]"
proof -
  have a: "''  '' \<noteq> [] \<and> list_all is_white_space ''  ''"
    by (simp add: is_white_space_def)
  have b: "list_ex (\<lambda>c. \<not> is_white_space c) '' BoLt  ''"
    by (simp add: is_white_space_def)
  have t: "trim '' BoLt  '' = ''BoLt''"
    by (simp add: trim_def is_white_space_def)
  have f: "filter (search_match sample_runtime (toLowerCase sample_runtime ''BoLt'')) [acme, bolt, core] = [bolt]"
    by code_simp
  show ?thesis
    using a b t f
      search_trimmed [of "''  ''" sample_runtime "[acme, bolt, core]" "''All''" "''All''" "''name-asc''"]
      search_trimmed [of "'' BoLt  ''" sample_runtime "[acme, bolt, core]" "''All''" "''All''" "''name-asc''"]
    by simp
qed

text \<open>
  C5. An event that changes one of the four inputs of the pipeline (the debounced search
  text, the location filter, the industry filter, the sort key) leaves the page at 1. The
  inputs change when a select takes a new value and when the debounce timer fires with a
  text that differs from the debounced one.
\<close>

theorem page_reset:
  "(query_inputs (step rt e s) \<noteq> query_inputs s \<longrightarrow> page (step rt e s) = 1)
   \<and> (mounted s \<and> v \<noteq> locationFilter s \<longrightarrow>
        locationFilter (step rt (SelectLocation v) s) = v \<and> page (step rt (SelectLocation v) s) = 1)
   \<and> (mounted s \<and> v \<noteq> industryFilter s \<longrightarrow>
        industryFilter (step rt (SelectIndustry v) s) = v \<and> page (step rt (SelectIndustry v) s) = 1)
   \<and> (mounted s \<and> v \<noteq> sortKey s \<longrightarrow>
        sortKey (step rt (SelectSort v) s) = v \<and> page (step rt (SelectSort v) s) = 1)
   \<and> (mounted s \<and> timer s = Some (left, v) \<and> left \<le> d \<and> v \<noteq> debouncedSearch s \<longrightarrow>
        debouncedSearch (step rt (Elapse d) s) = v \<and> page (step rt (Elapse d) s) = 1)"
  by (simp add: step_def effects_def Let_def query_inputs_def)

theorem page_reset_witness:
  "query_inputs (step sample_runtime (SelectSort ''employees-desc'') (initial\<lparr>page := 3\<rparr>))
     = ([], ''All'', ''All'', ''employees-desc'')
   \<and> query_inputs (initial\<lparr>page := 3\<rparr>) = ([], ''All'', ''All'', ''name-asc'')
   \<and> page (step sample_runtime (SelectSort ''employees-desc'') (initial\<lparr>page := 3\<rparr>)) = 1
   \<and> page (step sample_runtime (Elapse 300) (initial\<lparr>page := 3, timer := Some (300, ''acm'')\<rparr>)) = 1"
proof -
  have "query_inputs (step sample_runtime (SelectSort ''employees-desc'') (initial\<lparr>page := 3\<rparr>))
     = ([], ''All'', ''All'', ''employees-desc'')"
    and "query_inputs (initial\<lparr>page := 3\<rparr>) = ([], ''All'', ''All'', ''name-asc'')"
    by (simp_all add: step_def effects_def Let_def query_inputs_def initial_def)
  moreover have "mounted (initial\<lparr>page := 3, timer := Some (300, ''acm'')\<rparr>)"
    and "timer (initial\<lparr>page := 3, timer := Some (300, ''acm'')\<rparr>) = Some (300, ''acm'')"
    and "''acm'' \<noteq> debouncedSearch (initial\<lparr>page := 3, timer := Some (300, ''acm'')\<rparr>)"
    by (simp_all add: initial_def)
  ultimately show ?thesis
    using page_reset [of sample_runtime "SelectSort ''employees-desc''" "initial\<lparr>page := 3\<rparr>"]
      page_reset [of sample_runtime "Elapse 300" "initial\<lparr>page := 3, timer := Some (300, ''acm'')\<rparr>"
        "''acm''" 300 300]
    by simp
qed

text \<open>
  C7. Time is counted in milliseconds. During a burst of changes of the search input,
  each less than 300 ms after the one before, nothing is handed to the pipeline and the
  debounced text stays what it was: every change cancels the pending timer and starts a
  new one of 300 ms. When 300 ms have passed since the last change, the last text, and
  only it, is handed over, once; before that, nothing is.
\<close>

theorem debounce_last_value:
  assumes "mounted s" and "bs \<noteq> []" and "changes (search s) (map fst bs)"
    and "list_all (\<lambda>(v, gap). gap < 300) bs"
  shows "propagations rt s (typing bs) = []
    \<and> debouncedSearch (run rt s (typing bs)) = debouncedSearch s
    \<and> timer (run rt s (typing bs)) = Some (300 - snd (last bs), fst (last bs))
    \<and> (snd (last bs) + d < 300 \<longrightarrow>
         propagations rt s (typing bs @ [Elapse d]) = []
         \<and> debouncedSearch (run rt s (typing bs @ [Elapse d])) = debouncedSearch s)
    \<and> (300 \<le> snd (last bs) + d \<longrightarrow>
         propagations rt s (typing bs @ [Elapse d]) = [fst (last bs)]
         \<and> debouncedSearch (run rt s (typing bs @ [Elapse d])) = fst (last bs)
         \<and> timer (run rt s (typing bs @ [Elapse d])) = None)"
proof -
  define s' where "s' = run rt s (typing bs)"
  have inv: "mounted s'" "timer s' = Some (300 - snd (last bs), fst (last bs))"
    "debouncedSearch s' = debouncedSearch s" "propagations rt s (typing bs) = []"
    using burst_invariant [OF assms, of rt] by (simp_all add: s'_def)
  have p: "propagations rt s (typing bs @ [Elapse d]) = propagated (Elapse d) s'"
    using inv by (simp add: propagations_append s'_def [symmetric])
  have r: "run rt s (typing bs @ [Elapse d]) = step rt (Elapse d) s'"
    by (simp add: run_def s'_def)
  have early: "propagated (Elapse d) s' = [] \<and> debouncedSearch (step rt (Elapse d) s') = debouncedSearch s"
    if "snd (last bs) + d < 300"
  proof -
    have "\<not> 300 - snd (last bs) \<le> d" using that by linarith
    then show ?thesis
      using inv by (simp add: step_def effects_def Let_def query_inputs_def)
  qed
  have late: "propagated (Elapse d) s' = [fst (last bs)]
      \<and> debouncedSearch (step rt (Elapse d) s') = fst (last bs)
      \<and> timer (step rt (Elapse d) s') = None"
    if "300 \<le> snd (last bs) + d"
  proof -
    have "300 - snd (last bs) \<le> d" using that by linarith
    then show ?thesis
      using inv by (simp add: step_def effects_def Let_def query_inputs_def)
  qed
  show ?thesis
    using inv early late unfolding p r s'_def [symmetric] by simp
qed

theorem debounce_last_value_witness:
  "mounted initial \<and> sample_burst \<noteq> []
   \<and> changes (search initial) (map fst sample_burst)
   \<and> list_all (\<lambda>(v, gap). gap < 300) sample_burst
   \<and> propagations sample_runtime initial (typing sample_burst) = []
   \<and> propagations sample_runtime initial (typing sample_burst @ [Elapse 249]) = []
   \<and> propagations sample_runtime initial (typing sample_burst @ [Elapse 250]) = [''acm'']
   \<and> debouncedSearch (run sample_runtime initial (typing sample_burst @ [Elapse 250])) = ''acm''"
proof -
  have h: "mounted initial" "sample_burst \<noteq> []"
    "changes (search initial) (map fst sample_burst)"
    "list_all (\<lambda>(v, gap). gap < 300) sample_burst"
    by (simp_all add: initial_def sample_burst_def)
  have l: "last sample_burst = (''acm'', 50)"
    by (simp add: sample_burst_def)
  show ?thesis
    using h debounce_last_value [OF h, of sample_runtime 249]
      debounce_last_value [OF h, of sample_runtime 250]
    by (simp add: l)
qed

text \<open>
  C8. While the fetch is pending and the component is mounted: a rejected fetch (a network
  error) gives the error view with a non-empty message; a response whose status is not
  200 to 299 gives the error view with the message "Failed to load companies: " followed
  by the status in decimal digits (the status is read back from them); in both cases the collection is left as it was, and no later
  event other than a settling of the fetch changes the error view or the collection. A
  response with a status 200 to 299 whose body parses to a collection stores that
  collection and gives the directory view.
\<close>

theorem load_outcomes:
  assumes "mounted s" and "error s = None"
  shows "render (step rt (Settle (Rejected e)) s) = ErrorView (error_message e)
    \<and> error_message e \<noteq> []
    \<and> companies (step rt (Settle (Rejected e)) s) = companies s
    \<and> (\<not> ok res \<longrightarrow>
         render (step rt (Settle (Resolved res)) s)
           = ErrorView (''Failed to load companies: '' @ show_nat (status res))
         \<and> read_nat (show_nat (status res)) = status res
         \<and> companies (step rt (Settle (Resolved res)) s) = companies s)
    \<and> (ok res \<and> json res = Inr data \<longrightarrow>
         render (step rt (Settle (Resolved res)) s) = DirectoryView
         \<and> companies (step rt (Settle (Resolved res)) s) = data
         \<and> error (step rt (Settle (Resolved res)) s) = None)
    \<and> (fetchCompanies out = Inl err \<and> list_all (\<lambda>e. \<not> is_settle e) es \<longrightarrow>
         render (run rt (step rt (Settle out) s) es) = ErrorView (error_message err)
         \<and> companies (run rt (step rt (Settle out) s) es) = companies s)"
proof -
  have settle: "step rt (Settle out) s
      = (case fetchCompanies out of
           Inr data \<Rightarrow> s\<lparr>companies := data, loading := False\<rparr>
         | Inl err \<Rightarrow> s\<lparr>error := Some (error_message err), loading := False\<rparr>)" for out
    using assms(1)
    by (simp add: step_def effects_def Let_def query_inputs_def split: sum.splits)
  have rejected: "render (step rt (Settle (Rejected e)) s) = ErrorView (error_message e)
    \<and> companies (step rt (Settle (Rejected e)) s) = companies s"
    by (simp add: settle fetchCompanies_def render_def error_message_visible)
  have not_ok: "render (step rt (Settle (Resolved res)) s)
           = ErrorView (''Failed to load companies: '' @ show_nat (status res))
         \<and> companies (step rt (Settle (Resolved res)) s) = companies s"
    if "\<not> ok res"
    using that by (simp add: settle fetchCompanies_def render_def)
  have is_ok: "render (step rt (Settle (Resolved res)) s) = DirectoryView
         \<and> companies (step rt (Settle (Resolved res)) s) = data
         \<and> error (step rt (Settle (Resolved res)) s) = None"
    if "ok res \<and> json res = Inr data"
    using that assms(2) by (simp add: settle fetchCompanies_def render_def)
  have stays: "render (run rt (step rt (Settle out) s) es) = ErrorView (error_message err)
         \<and> companies (run rt (step rt (Settle out) s) es) = companies s"
    if "fetchCompanies out = Inl err \<and> list_all (\<lambda>e. \<not> is_settle e) es"
  proof -
    have "step rt (Settle out) s = s\<lparr>error := Some (error_message err), loading := False\<rparr>"
      using that by (simp add: settle)
    then show ?thesis
      using that run_keeps_load [of es rt "step rt (Settle out) s"]
      by (simp add: render_def error_message_visible)
  qed
  show ?thesis
    using rejected not_ok is_ok stays error_message_visible [of e]
      read_show_nat [of "status res"]
    by blast
qed

theorem load_outcomes_witness:
  "mounted initial \<and> error initial = None
   \<and> \<not> ok not_found
   \<and> render (step sample_runtime (Settle (Resolved not_found)) initial)
       = ErrorView ''Failed to load companies: 404''
   \<and> ok found \<and> json found = Inr [acme, bolt]
   \<and> render (step sample_runtime (Settle (Resolved found)) initial) = DirectoryView
   \<and> companies (step sample_runtime (Settle (Resolved found)) initial) = [acme, bolt]
   \<and> render (step sample_runtime (Settle (Rejected (JsError (Some ''Failed to fetch'')))) initial)
       = ErrorView ''Failed to fetch''
   \<and> render (run sample_runtime (step sample_runtime (Settle (Resolved not_found)) initial)
         [Elapse 300, Change ''a'', Click Next])
       = ErrorView ''Failed to load companies: 404''"
proof -
  have h: "mounted initial" "error initial = None"
    by (simp_all add: initial_def)
  have a: "\<not> ok not_found" "status not_found = 404"
    and b: "ok found \<and> json found = Inr [acme, bolt]"
    by (simp_all add: ok_def not_found_def found_def)
  have c: "fetchCompanies (Resolved not_found)
      = Inl (JsError (Some ''Failed to load companies: 404''))"
    by (simp add: fetchCompanies_def a show_404)
  have d: "list_all (\<lambda>e. \<not> is_settle e) [Elapse 300, Change ''a'', Click Next]"
    by simp
  show ?thesis
    using h a b
      load_outcomes [OF h, of sample_runtime "JsError (Some ''Failed to fetch'')" not_found
        "[acme, bolt]" "Resolved not_found" "JsError (Some ''Failed to load companies: 404'')"
        "[Elapse 300, Change ''a'', Click Next]"]
      load_outcomes [OF h, of sample_runtime "JsError (Some ''Failed to fetch'')" found
        "[acme, bolt]" "Resolved not_found" "JsError (Some ''Failed to load companies: 404'')"
        "[Elapse 300, Change ''a'', Click Next]"]
    by (simp add: c d show_404)
qed

end
